theory Spec2Isabelle
  imports Main "HOL-Library.Word"
begin

section \<open>The string-queue registry of \<^verbatim>\<open>strqueue.cpp\<close>\<close>

text \<open>
  The module keeps two process-wide variables: the counter \<^verbatim>\<open>cnt\<close> of type
  \<^verbatim>\<open>unsigned long\<close> and the table \<^verbatim>\<open>queues\<close> of type
  \<^verbatim>\<open>unordered_map<unsigned long, deque<string>>\<close>. They are the two fields of the
  state record below, and every function of the module takes the state and, when it writes,
  returns the new one.

  \<^item> \<^verbatim>\<open>unsigned long\<close> is a 64-bit word (LP64); \<open>cnt++\<close> wraps around.
  \<^item> \<^verbatim>\<open>size_t\<close> positions and sizes are natural numbers: the code only compares
    them and counts up from 0 to a given position, so no arithmetic on them can overflow.
  \<^item> \<^verbatim>\<open>std::string\<close> is a list of bytes, \<^verbatim>\<open>deque<string>\<close> a list of strings.
  \<^item> A \<^verbatim>\<open>const char *\<close> is \<open>None\<close> for \<^verbatim>\<open>NULL\<close> and otherwise \<open>Some\<close> of the
    bytes before the terminator.
\<close>

type_synonym ulong = "64 word"

type_synonym deque = "string list"

record registry =
  cnt :: ulong
  queues :: "ulong \<rightharpoonup> deque"

text \<open>The state at program start: \<^verbatim>\<open>cnt = 0\<close> and an empty map.\<close>

definition initial :: registry where
  "initial = \<lparr>cnt = 0, queues = Map.empty\<rparr>"

text \<open>\<^verbatim>\<open>numeric_limits<unsigned long>::max()\<close>\<close>

definition ulong_max :: ulong where
  "ulong_max = - 1"

text \<open>\<^verbatim>\<open>get_empty_queue()\<close>: the static deque that is never written to.\<close>

definition get_empty_queue :: deque where
  "get_empty_queue = []"

subsection \<open>Iterators and the deque operations the module calls\<close>

text \<open>
  An iterator is its distance from \<^verbatim>\<open>begin()\<close>. The loop of
  \<^verbatim>\<open>deque_get_iterator_at\<close> advances \<^verbatim>\<open>index\<close> and \<^verbatim>\<open>it\<close> together while
  \<^verbatim>\<open>index < position\<close>.
\<close>

function iterator_loop :: "nat \<Rightarrow> nat \<Rightarrow> nat \<Rightarrow> nat" where
  "iterator_loop position index it =
     (if index < position then iterator_loop position (Suc index) (Suc it) else it)"
  by pat_completeness auto
termination
  by (relation "measure (\<lambda>(position, index, it). position - index)") auto

definition deque_get_iterator_at :: "deque \<Rightarrow> nat \<Rightarrow> nat" where
  "deque_get_iterator_at queue position = iterator_loop position 0 0"

definition push_back :: "deque \<Rightarrow> string \<Rightarrow> deque" where
  "push_back queue s = queue @ [s]"

text \<open>\<^verbatim>\<open>insert(it, s)\<close> puts \<open>s\<close> before the element \<open>it\<close> points to.\<close>

definition deque_insert :: "deque \<Rightarrow> nat \<Rightarrow> string \<Rightarrow> deque" where
  "deque_insert queue it s = take it queue @ s # drop it queue"

definition deque_erase :: "deque \<Rightarrow> nat \<Rightarrow> deque" where
  "deque_erase queue it = take it queue @ drop (Suc it) queue"

subsection \<open>Comparison of strings and deques\<close>

text \<open>
  \<^verbatim>\<open>operator<\<close> on two deques is \<^verbatim>\<open>std::lexicographical_compare\<close> over their
  elements; \<^verbatim>\<open>operator<\<close> on two strings compares them byte by byte as unsigned
  characters, and a proper prefix is smaller. \<^verbatim>\<open>a > b\<close> is \<^verbatim>\<open>b < a\<close>.
\<close>

fun lexicographical_compare :: "('a \<Rightarrow> 'a \<Rightarrow> bool) \<Rightarrow> 'a list \<Rightarrow> 'a list \<Rightarrow> bool" where
  "lexicographical_compare lt [] [] = False"
| "lexicographical_compare lt [] (y # ys) = True"
| "lexicographical_compare lt (x # xs) [] = False"
| "lexicographical_compare lt (x # xs) (y # ys) =
     (if lt x y then True
      else if lt y x then False
      else lexicographical_compare lt xs ys)"

definition char_lt :: "char \<Rightarrow> char \<Rightarrow> bool" where
  "char_lt c d = ((of_char c :: nat) < of_char d)"

definition string_lt :: "string \<Rightarrow> string \<Rightarrow> bool" where
  "string_lt s t = lexicographical_compare char_lt s t"

definition deque_lt :: "deque \<Rightarrow> deque \<Rightarrow> bool" where
  "deque_lt q1 q2 = lexicographical_compare string_lt q1 q2"

subsection \<open>The functions of namespace \<^verbatim>\<open>cxx\<close>\<close>

text \<open>
  \<^verbatim>\<open>assert\<close> comes from \<^verbatim>\<open><cassert>\<close>: it aborts the process when its condition is
  false, unless \<^verbatim>\<open>NDEBUG\<close> is defined, in which case it expands to nothing. The file
  itself distinguishes the two builds through its constant \<^verbatim>\<open>debug\<close>
  (\<^verbatim>\<open>false\<close> exactly when \<^verbatim>\<open>NDEBUG\<close> is defined), which is the first argument of
  \<open>strqueue_new\<close>. The logging calls guarded by \<^verbatim>\<open>debug\<close> only write to
  \<^verbatim>\<open>cerr\<close> and are left out.
\<close>

datatype abort = Assertion_failed

definition strqueue_new :: "bool \<Rightarrow> registry \<Rightarrow> abort + (registry \<times> ulong)" where
  "strqueue_new debug r =
     (if debug \<and> \<not> cnt r < ulong_max then Inl Assertion_failed
      else Inr (r\<lparr>queues := (queues r)(cnt r \<mapsto> []), cnt := cnt r + 1\<rparr>, cnt r))"

definition strqueue_delete :: "registry \<Rightarrow> ulong \<Rightarrow> registry" where
  "strqueue_delete r id' =
     (case queues r id' of
        None \<Rightarrow> r
      | Some queue \<Rightarrow> r\<lparr>queues := (queues r)(id' := None)\<rparr>)"

definition strqueue_size :: "registry \<Rightarrow> ulong \<Rightarrow> nat" where
  "strqueue_size r id' =
     (case queues r id' of
        None \<Rightarrow> 0
      | Some queue \<Rightarrow> length queue)"

definition strqueue_insert_at :: "registry \<Rightarrow> ulong \<Rightarrow> nat \<Rightarrow> string option \<Rightarrow> registry" where
  "strqueue_insert_at r id' position str =
     (case queues r id' of
        None \<Rightarrow> r
      | Some queue \<Rightarrow>
          (case str of
             None \<Rightarrow> r
           | Some s \<Rightarrow>
               if length queue \<le> position
               then r\<lparr>queues := (queues r)(id' \<mapsto> push_back queue s)\<rparr>
               else r\<lparr>queues := (queues r)(id' \<mapsto>
                      deque_insert queue (deque_get_iterator_at queue position) s)\<rparr>))"

definition strqueue_remove_at :: "registry \<Rightarrow> ulong \<Rightarrow> nat \<Rightarrow> registry" where
  "strqueue_remove_at r id' position =
     (let queue = (case queues r id' of None \<Rightarrow> get_empty_queue | Some q \<Rightarrow> q)
      in if queues r id' = None \<or> length queue \<le> position then r
         else r\<lparr>queues := (queues r)(id' \<mapsto>
                deque_erase queue (deque_get_iterator_at queue position))\<rparr>)"

definition strqueue_get_at :: "registry \<Rightarrow> ulong \<Rightarrow> nat \<Rightarrow> string option" where
  "strqueue_get_at r id' position =
     (let queue = (case queues r id' of None \<Rightarrow> get_empty_queue | Some q \<Rightarrow> q)
      in if queues r id' = None \<or> length queue \<le> position then None
         else Some (queue ! deque_get_iterator_at queue position))"

definition strqueue_clear :: "registry \<Rightarrow> ulong \<Rightarrow> registry" where
  "strqueue_clear r id' =
     (case queues r id' of
        None \<Rightarrow> r
      | Some queue \<Rightarrow> r\<lparr>queues := (queues r)(id' \<mapsto> [])\<rparr>)"

definition strqueue_comp :: "registry \<Rightarrow> ulong \<Rightarrow> ulong \<Rightarrow> int" where
  "strqueue_comp r id1 id2 =
     (let q1 = (case queues r id1 of None \<Rightarrow> get_empty_queue | Some q \<Rightarrow> q);
          q2 = (case queues r id2 of None \<Rightarrow> get_empty_queue | Some q \<Rightarrow> q)
      in if deque_lt q1 q2 then - 1
         else if deque_lt q2 q1 then 1
         else 0)"

subsection \<open>Sequences of calls\<close>

text \<open>
  A client is a sequence of calls of the eight functions. Each call returns the new state
  and the value the function returns; the functions that only read (\<^verbatim>\<open>find\<close> on the
  map, never \<^verbatim>\<open>operator[]\<close>) hand the state back as it was. A failed assertion ends
  the process.
\<close>

datatype call =
    New
  | Delete ulong
  | Size ulong
  | Insert_at ulong nat "string option"
  | Remove_at ulong nat
  | Get_at ulong nat
  | Clear ulong
  | Comp ulong ulong

datatype result =
    Handle ulong
  | Count nat
  | Str "string option"
  | Order int
  | Done

fun exec :: "bool \<Rightarrow> registry \<Rightarrow> call \<Rightarrow> abort + (registry \<times> result)" where
  "exec debug r New =
     (case strqueue_new debug r of
        Inl a \<Rightarrow> Inl a
      | Inr (r', h) \<Rightarrow> Inr (r', Handle h))"
| "exec debug r (Delete h) = Inr (strqueue_delete r h, Done)"
| "exec debug r (Size h) = Inr (r, Count (strqueue_size r h))"
| "exec debug r (Insert_at h p s) = Inr (strqueue_insert_at r h p s, Done)"
| "exec debug r (Remove_at h p) = Inr (strqueue_remove_at r h p, Done)"
| "exec debug r (Get_at h p) = Inr (r, Str (strqueue_get_at r h p))"
| "exec debug r (Clear h) = Inr (strqueue_clear r h, Done)"
| "exec debug r (Comp h1 h2) = Inr (r, Order (strqueue_comp r h1 h2))"

text \<open>The values returned by the calls of a sequence, up to the first abort.\<close>

fun run :: "bool \<Rightarrow> registry \<Rightarrow> call list \<Rightarrow> result list" where
  "run debug r [] = []"
| "run debug r (c # cs) =
     (case exec debug r c of
        Inl a \<Rightarrow> []
      | Inr (r', x) \<Rightarrow> x # run debug r' cs)"

text \<open>The handles among them: what the calls of \<^verbatim>\<open>strqueue_new\<close> returned.\<close>

fun handles :: "result list \<Rightarrow> ulong list" where
  "handles [] = []"
| "handles (Handle h # xs) = h # handles xs"
| "handles (x # xs) = handles xs"

text \<open>
  A client that creates a queue and deletes it again, \<open>n\<close> times over: at no moment
  is more than one queue alive.
\<close>

fun churn :: "nat \<Rightarrow> call list" where
  "churn 0 = []"
| "churn (Suc n) = churn n @ [New, Delete (word_of_nat n)]"

subsection \<open>The order of the specification\<close>

text \<open>
  The specification describes the result of a comparison in its own words: strings are
  ordered byte by byte, queues lexicographically over that order, a proper prefix before
  the longer sequence, and a handle that names no queue stands for the empty queue. The
  definitions below follow these words, with \<open>lexord\<close> for "lexicographic"; less, equal
  and greater are the code's \<open>-1\<close>, \<open>0\<close> and \<open>1\<close>.
\<close>

definition spec_byte_less :: "(char \<times> char) set" where
  "spec_byte_less = {(c, d). (of_char c :: nat) < of_char d}"

definition spec_string_less :: "(string \<times> string) set" where
  "spec_string_less = lexord spec_byte_less"

definition spec_queue_less :: "(deque \<times> deque) set" where
  "spec_queue_less = lexord spec_string_less"

definition spec_contents :: "registry \<Rightarrow> ulong \<Rightarrow> deque" where
  "spec_contents r h = (case queues r h of None \<Rightarrow> [] | Some q \<Rightarrow> q)"

definition spec_compare :: "registry \<Rightarrow> ulong \<Rightarrow> ulong \<Rightarrow> int" where
  "spec_compare r h1 h2 =
     (if (spec_contents r h1, spec_contents r h2) \<in> spec_queue_less then - 1
      else if spec_contents r h1 = spec_contents r h2 then 0
      else 1)"

section \<open>Properties\<close>

subsection \<open>The loop, and the functions in closed form\<close>

text \<open>
  The loop equation of \<open>iterator_loop\<close> rewrites its own right-hand side, so it is used
  one step at a time. The loop returns the iterator \<open>position\<close> steps after
  \<^verbatim>\<open>begin()\<close>.
\<close>

declare iterator_loop.simps [simp del]

lemma iterator_loop_eq: "iterator_loop position index it = it + (position - index)"
proof (induction position index it rule: iterator_loop.induct)
  case (1 position index it)
  show ?case
  proof (cases "index < position")
    case True
    with "1" show ?thesis
      by (subst iterator_loop.simps) simp
  next
    case False
    then show ?thesis
      by (subst iterator_loop.simps) simp
  qed
qed

lemma deque_get_iterator_at_eq: "deque_get_iterator_at queue position = position"
  by (simp add: deque_get_iterator_at_def iterator_loop_eq)

lemma insert_at_live:
  "queues r h = Some q \<Longrightarrow>
   strqueue_insert_at r h p (Some v) =
     r\<lparr>queues := (queues r)(h \<mapsto> if length q \<le> p then q @ [v] else take p q @ v # drop p q)\<rparr>"
  by (simp add: strqueue_insert_at_def push_back_def deque_insert_def deque_get_iterator_at_eq)

lemma insert_at_rejected:
  "queues r h = None \<or> s = None \<Longrightarrow> strqueue_insert_at r h p s = r"
  by (auto simp: strqueue_insert_at_def split: option.splits)

lemma remove_at_live:
  "queues r h = Some q \<Longrightarrow> p < length q \<Longrightarrow>
   strqueue_remove_at r h p = r\<lparr>queues := (queues r)(h \<mapsto> take p q @ drop (Suc p) q)\<rparr>"
  by (simp add: strqueue_remove_at_def deque_erase_def deque_get_iterator_at_eq)

lemma remove_at_rejected:
  "queues r h = None \<or> (\<exists>q. queues r h = Some q \<and> length q \<le> p) \<Longrightarrow>
   strqueue_remove_at r h p = r"
  by (auto simp: strqueue_remove_at_def)

lemma get_at_eq:
  "strqueue_get_at r h p =
     (case queues r h of
        None \<Rightarrow> None
      | Some q \<Rightarrow> if p < length q then Some (q ! p) else None)"
  by (simp add: strqueue_get_at_def deque_get_iterator_at_eq get_empty_queue_def
      split: option.splits)

subsection \<open>Insertion\<close>

text \<open>
  Claim C1. \<^verbatim>\<open>strqueue_insert_at\<close> on a live queue appends the value when the position is
  at least the size of the queue (so on an empty queue at every position), and otherwise
  inserts it before the element at that position, so that the value occupies the position
  and the queue is one longer. On an unknown handle, or with a null string, the state is
  returned as it was.
\<close>

theorem strqueue_insert_at_spec:
  "(queues r h = Some q \<and> length q \<le> p \<longrightarrow>
      strqueue_insert_at r h p (Some v) = r\<lparr>queues := (queues r)(h \<mapsto> q @ [v])\<rparr>) \<and>
   (queues r h = Some [] \<longrightarrow>
      strqueue_insert_at r h p (Some v) = r\<lparr>queues := (queues r)(h \<mapsto> [v])\<rparr>) \<and>
   (queues r h = Some q \<and> p < length q \<longrightarrow>
      strqueue_insert_at r h p (Some v) =
        r\<lparr>queues := (queues r)(h \<mapsto> take p q @ v # drop p q)\<rparr> \<and>
      strqueue_get_at (strqueue_insert_at r h p (Some v)) h p = Some v \<and>
      strqueue_size (strqueue_insert_at r h p (Some v)) h = Suc (length q)) \<and>
   (queues r h = None \<longrightarrow> strqueue_insert_at r h p s = r) \<and>
   strqueue_insert_at r h p None = r"
  by (auto simp: insert_at_live insert_at_rejected get_at_eq strqueue_size_def nth_append)

theorem strqueue_insert_at_spec_witness:
  "strqueue_insert_at \<lparr>cnt = 1, queues = [0 \<mapsto> [''a'', ''b'']]\<rparr> 0 7 (Some ''c'') =
     \<lparr>cnt = 1, queues = [0 \<mapsto> [''a'', ''b'', ''c'']]\<rparr> \<and>
   strqueue_insert_at \<lparr>cnt = 1, queues = [0 \<mapsto> []]\<rparr> 0 7 (Some ''c'') =
     \<lparr>cnt = 1, queues = [0 \<mapsto> [''c'']]\<rparr> \<and>
   strqueue_insert_at \<lparr>cnt = 1, queues = [0 \<mapsto> [''a'', ''b'']]\<rparr> 0 1 (Some ''c'') =
     \<lparr>cnt = 1, queues = [0 \<mapsto> [''a'', ''c'', ''b'']]\<rparr> \<and>
   strqueue_insert_at \<lparr>cnt = 1, queues = [0 \<mapsto> [''a'', ''b'']]\<rparr> 5 1 (Some ''c'') =
     \<lparr>cnt = 1, queues = [0 \<mapsto> [''a'', ''b'']]\<rparr>"
  using
    strqueue_insert_at_spec [where r = "\<lparr>cnt = 1, queues = [0 \<mapsto> [''a'', ''b'']]\<rparr>"
      and h = 0 and q = "[''a'', ''b'']" and p = 7 and v = "''c''"]
    strqueue_insert_at_spec [where r = "\<lparr>cnt = 1, queues = [0 \<mapsto> []]\<rparr>"
      and h = 0 and p = 7 and v = "''c''"]
    strqueue_insert_at_spec [where r = "\<lparr>cnt = 1, queues = [0 \<mapsto> [''a'', ''b'']]\<rparr>"
      and h = 0 and q = "[''a'', ''b'']" and p = 1 and v = "''c''"]
    strqueue_insert_at_spec [where r = "\<lparr>cnt = 1, queues = [0 \<mapsto> [''a'', ''b'']]\<rparr>"
      and h = 5 and p = 1 and s = "Some ''c''"]
  by simp

subsection \<open>Removal\<close>

text \<open>
  Claim C2. \<^verbatim>\<open>strqueue_remove_at\<close> at a position below the size of a live queue makes
  the size one smaller, moves every element behind the position one place down and leaves
  the elements before it where they were. On an unknown handle, or at a position that is
  not below the size, the state is returned as it was.
\<close>

theorem strqueue_remove_at_spec:
  "(queues r h = Some q \<and> p < length q \<longrightarrow>
      strqueue_size (strqueue_remove_at r h p) h = strqueue_size r h - 1 \<and>
      Suc (strqueue_size (strqueue_remove_at r h p) h) = strqueue_size r h \<and>
      (\<forall>i. p < i \<longrightarrow>
         strqueue_get_at (strqueue_remove_at r h p) h (i - 1) = strqueue_get_at r h i) \<and>
      (\<forall>i. i < p \<longrightarrow>
         strqueue_get_at (strqueue_remove_at r h p) h i = strqueue_get_at r h i) \<and>
      strqueue_remove_at r h p = r\<lparr>queues := (queues r)(h \<mapsto> take p q @ drop (Suc p) q)\<rparr>) \<and>
   (queues r h = None \<longrightarrow> strqueue_remove_at r h p = r) \<and>
   (strqueue_size r h \<le> p \<longrightarrow> strqueue_remove_at r h p = r)"
proof (intro conjI impI allI)
  assume "strqueue_size r h \<le> p"
  then show "strqueue_remove_at r h p = r"
    by (cases "queues r h") (auto simp: strqueue_size_def remove_at_rejected)
next
  assume "queues r h = None"
  then show "strqueue_remove_at r h p = r"
    by (simp add: remove_at_rejected)
next
  assume live: "queues r h = Some q \<and> p < length q"
  then show eq: "strqueue_remove_at r h p =
      r\<lparr>queues := (queues r)(h \<mapsto> take p q @ drop (Suc p) q)\<rparr>"
    by (simp add: remove_at_live)
  from live show "strqueue_size (strqueue_remove_at r h p) h = strqueue_size r h - 1"
    by (simp add: eq strqueue_size_def)
  from live show "Suc (strqueue_size (strqueue_remove_at r h p) h) = strqueue_size r h"
    by (auto simp: eq strqueue_size_def)
  fix i
  {
    assume "p < i"
    with live show
      "strqueue_get_at (strqueue_remove_at r h p) h (i - 1) = strqueue_get_at r h i"
      by (auto simp: eq get_at_eq nth_append min_def)
  }
  {
    assume "i < p"
    with live show
      "strqueue_get_at (strqueue_remove_at r h p) h i = strqueue_get_at r h i"
      by (auto simp: eq get_at_eq nth_append min_def)
  }
qed

theorem strqueue_remove_at_spec_witness:
  "strqueue_size (strqueue_remove_at \<lparr>cnt = 1, queues = [0 \<mapsto> [''a'', ''b'', ''c'']]\<rparr> 0 1) 0 = 2 \<and>
   strqueue_get_at (strqueue_remove_at \<lparr>cnt = 1, queues = [0 \<mapsto> [''a'', ''b'', ''c'']]\<rparr> 0 1) 0 1 =
     Some ''c'' \<and>
   strqueue_get_at (strqueue_remove_at \<lparr>cnt = 1, queues = [0 \<mapsto> [''a'', ''b'', ''c'']]\<rparr> 0 1) 0 0 =
     Some ''a'' \<and>
   strqueue_remove_at \<lparr>cnt = 1, queues = [0 \<mapsto> [''a'', ''b'', ''c'']]\<rparr> 0 1 =
     \<lparr>cnt = 1, queues = [0 \<mapsto> [''a'', ''c'']]\<rparr> \<and>
   strqueue_remove_at \<lparr>cnt = 1, queues = [0 \<mapsto> [''a'', ''b'', ''c'']]\<rparr> 4 1 =
     \<lparr>cnt = 1, queues = [0 \<mapsto> [''a'', ''b'', ''c'']]\<rparr> \<and>
   strqueue_remove_at \<lparr>cnt = 1, queues = [0 \<mapsto> [''a'', ''b'', ''c'']]\<rparr> 0 3 =
     \<lparr>cnt = 1, queues = [0 \<mapsto> [''a'', ''b'', ''c'']]\<rparr>"
  using
    strqueue_remove_at_spec [where r = "\<lparr>cnt = 1, queues = [0 \<mapsto> [''a'', ''b'', ''c'']]\<rparr>"
      and h = 0 and q = "[''a'', ''b'', ''c'']" and p = 1]
    strqueue_remove_at_spec [where r = "\<lparr>cnt = 1, queues = [0 \<mapsto> [''a'', ''b'', ''c'']]\<rparr>"
      and h = 4 and p = 1]
    strqueue_remove_at_spec [where r = "\<lparr>cnt = 1, queues = [0 \<mapsto> [''a'', ''b'', ''c'']]\<rparr>"
      and h = 0 and p = 3]
  by (simp add: strqueue_size_def get_at_eq)

subsection \<open>Queries on handles that name no queue\<close>

text \<open>
  Claim C5. For a handle that is not a key of the map, \<^verbatim>\<open>strqueue_size\<close> returns 0 and
  \<^verbatim>\<open>strqueue_get_at\<close> returns \<^verbatim>\<open>NULL\<close> at every position. After
  \<^verbatim>\<open>strqueue_delete\<close> the handle is no key any more, and the two queries answer on it
  what they answer on any handle that is no key of any state. For a live handle
  \<^verbatim>\<open>strqueue_size\<close> returns the length of its queue, and the call always returns.
\<close>

theorem unknown_handle_queries:
  "(queues r h = None \<longrightarrow>
      strqueue_size r h = 0 \<and> strqueue_get_at r h p = None) \<and>
   queues (strqueue_delete r h) h = None \<and>
   (queues r' h' = None \<longrightarrow>
      strqueue_size (strqueue_delete r h) h = strqueue_size r' h' \<and>
      strqueue_get_at (strqueue_delete r h) h p = strqueue_get_at r' h' p) \<and>
   (queues r h = Some q \<longrightarrow> strqueue_size r h = length q) \<and>
   exec debug r (Size h) = Inr (r, Count (strqueue_size r h))"
  by (auto simp: strqueue_size_def get_at_eq strqueue_delete_def split: option.splits)

theorem unknown_handle_queries_witness:
  "strqueue_size \<lparr>cnt = 2, queues = [1 \<mapsto> [''a'', ''b'']]\<rparr> 0 = 0 \<and>
   strqueue_get_at \<lparr>cnt = 2, queues = [1 \<mapsto> [''a'', ''b'']]\<rparr> 0 1 = None \<and>
   strqueue_size (strqueue_delete \<lparr>cnt = 2, queues = [1 \<mapsto> [''a'', ''b'']]\<rparr> 1) 1 =
     strqueue_size \<lparr>cnt = 2, queues = [1 \<mapsto> [''a'', ''b'']]\<rparr> 7 \<and>
   strqueue_get_at (strqueue_delete \<lparr>cnt = 2, queues = [1 \<mapsto> [''a'', ''b'']]\<rparr> 1) 1 0 =
     strqueue_get_at \<lparr>cnt = 2, queues = [1 \<mapsto> [''a'', ''b'']]\<rparr> 7 0 \<and>
   strqueue_size \<lparr>cnt = 2, queues = [1 \<mapsto> [''a'', ''b'']]\<rparr> 1 = 2"
  using
    unknown_handle_queries [where r = "\<lparr>cnt = 2, queues = [1 \<mapsto> [''a'', ''b'']]\<rparr>"
      and h = 0 and p = 1]
    unknown_handle_queries [where r = "\<lparr>cnt = 2, queues = [1 \<mapsto> [''a'', ''b'']]\<rparr>"
      and h = 1 and p = 0 and q = "[''a'', ''b'']"
      and r' = "\<lparr>cnt = 2, queues = [1 \<mapsto> [''a'', ''b'']]\<rparr>" and h' = 7]
  by simp

subsection \<open>Clearing\<close>

text \<open>
  Claim C6. \<^verbatim>\<open>strqueue_clear\<close> on a live handle, whatever its queue holds, leaves the
  handle in the map with an empty queue: the size is 0 and position 0 holds nothing. On an
  unknown handle the state is returned as it was.
\<close>

theorem strqueue_clear_spec:
  "(queues r h = Some q \<longrightarrow>
      strqueue_clear r h = r\<lparr>queues := (queues r)(h \<mapsto> [])\<rparr> \<and>
      queues (strqueue_clear r h) h = Some [] \<and>
      strqueue_size (strqueue_clear r h) h = 0 \<and>
      strqueue_get_at (strqueue_clear r h) h 0 = None) \<and>
   (queues r h = None \<longrightarrow> strqueue_clear r h = r)"
  by (simp add: strqueue_clear_def strqueue_size_def get_at_eq)

theorem strqueue_clear_spec_witness:
  "strqueue_clear \<lparr>cnt = 2, queues = [1 \<mapsto> [''a'', ''b'']]\<rparr> 1 =
     \<lparr>cnt = 2, queues = [1 \<mapsto> []]\<rparr> \<and>
   queues (strqueue_clear \<lparr>cnt = 2, queues = [1 \<mapsto> [''a'', ''b'']]\<rparr> 1) 1 = Some [] \<and>
   strqueue_size (strqueue_clear \<lparr>cnt = 2, queues = [1 \<mapsto> [''a'', ''b'']]\<rparr> 1) 1 = 0 \<and>
   strqueue_get_at (strqueue_clear \<lparr>cnt = 2, queues = [1 \<mapsto> [''a'', ''b'']]\<rparr> 1) 1 0 = None \<and>
   strqueue_clear \<lparr>cnt = 2, queues = [1 \<mapsto> [''a'', ''b'']]\<rparr> 0 =
     \<lparr>cnt = 2, queues = [1 \<mapsto> [''a'', ''b'']]\<rparr>"
  using
    strqueue_clear_spec [where r = "\<lparr>cnt = 2, queues = [1 \<mapsto> [''a'', ''b'']]\<rparr>"
      and h = 1 and q = "[''a'', ''b'']"]
    strqueue_clear_spec [where r = "\<lparr>cnt = 2, queues = [1 \<mapsto> [''a'', ''b'']]\<rparr>"
      and h = 0]
  by (simp add: strqueue_size_def get_at_eq)

subsection \<open>Insertion followed by a read\<close>

text \<open>
  Claim C7. After \<^verbatim>\<open>strqueue_insert_at\<close> of a non-null string into a live queue,
  \<^verbatim>\<open>strqueue_get_at\<close> returns that string at the position it went to: the size
  before the insertion when the given position was at least that size, and the given
  position otherwise.
\<close>

theorem insert_at_then_get_at:
  "queues r h = Some q \<Longrightarrow>
   strqueue_get_at (strqueue_insert_at r h p (Some v)) h
     (if strqueue_size r h \<le> p then strqueue_size r h else p) = Some v"
  by (simp add: insert_at_live get_at_eq strqueue_size_def nth_append)

theorem insert_at_then_get_at_witness:
  "strqueue_get_at
     (strqueue_insert_at \<lparr>cnt = 2, queues = [1 \<mapsto> [''a'', ''b'']]\<rparr> 1 9 (Some ''c'')) 1 2 =
     Some ''c'' \<and>
   strqueue_get_at
     (strqueue_insert_at \<lparr>cnt = 2, queues = [1 \<mapsto> [''a'', ''b'']]\<rparr> 1 1 (Some ''c'')) 1 1 =
     Some ''c''"
  using
    insert_at_then_get_at [where r = "\<lparr>cnt = 2, queues = [1 \<mapsto> [''a'', ''b'']]\<rparr>"
      and h = 1 and q = "[''a'', ''b'']" and p = 9 and v = "''c''"]
    insert_at_then_get_at [where r = "\<lparr>cnt = 2, queues = [1 \<mapsto> [''a'', ''b'']]\<rparr>"
      and h = 1 and q = "[''a'', ''b'']" and p = 1 and v = "''c''"]
  by (simp add: strqueue_size_def numeral_2_eq_2)

subsection \<open>Other queues\<close>

text \<open>
  Claim C10. The functions that write, called with a handle, leave the entry of every other
  handle as it was (present or absent, and with the same strings). The functions that only
  read return the whole state as it was, so a query on an unknown handle adds no entry.
\<close>

theorem other_queues_untouched:
  "(h' \<noteq> h \<longrightarrow>
      queues (strqueue_delete r h) h' = queues r h' \<and>
      queues (strqueue_insert_at r h p s) h' = queues r h' \<and>
      queues (strqueue_remove_at r h p) h' = queues r h' \<and>
      queues (strqueue_clear r h) h' = queues r h') \<and>
   (c \<in> {Size h, Get_at h p, Comp h h2, Comp h2 h} \<longrightarrow>
      (\<exists>x. exec debug r c = Inr (r, x)))"
  by (auto simp: strqueue_delete_def strqueue_insert_at_def strqueue_remove_at_def
      strqueue_clear_def split: option.splits)

theorem other_queues_untouched_witness:
  "queues (strqueue_delete \<lparr>cnt = 2, queues = [0 \<mapsto> [''x''], 1 \<mapsto> [''a'', ''b'']]\<rparr> 0) 1 =
     Some [''a'', ''b''] \<and>
   queues (strqueue_insert_at \<lparr>cnt = 2, queues = [0 \<mapsto> [''x''], 1 \<mapsto> [''a'', ''b'']]\<rparr> 0 0
     (Some ''y'')) 1 = Some [''a'', ''b''] \<and>
   queues (strqueue_remove_at \<lparr>cnt = 2, queues = [0 \<mapsto> [''x''], 1 \<mapsto> [''a'', ''b'']]\<rparr> 0 0) 1 =
     Some [''a'', ''b''] \<and>
   queues (strqueue_clear \<lparr>cnt = 2, queues = [0 \<mapsto> [''x''], 1 \<mapsto> [''a'', ''b'']]\<rparr> 0) 1 =
     Some [''a'', ''b''] \<and>
   (\<exists>x. exec True \<lparr>cnt = 2, queues = [0 \<mapsto> [''x''], 1 \<mapsto> [''a'', ''b'']]\<rparr> (Size 5) =
     Inr (\<lparr>cnt = 2, queues = [0 \<mapsto> [''x''], 1 \<mapsto> [''a'', ''b'']]\<rparr>, x))"
  using
    other_queues_untouched [where r = "\<lparr>cnt = 2, queues = [0 \<mapsto> [''x''], 1 \<mapsto> [''a'', ''b'']]\<rparr>"
      and h = 0 and h' = 1 and p = 0 and s = "Some ''y''"]
    other_queues_untouched [where r = "\<lparr>cnt = 2, queues = [0 \<mapsto> [''x''], 1 \<mapsto> [''a'', ''b'']]\<rparr>"
      and h = 5 and c = "Size 5" and debug = True]
  by simp

subsection \<open>Comparison\<close>

text \<open>
  \<^verbatim>\<open>std::lexicographical_compare\<close> over a relation in which two elements that are not
  related either way are equal decides the lexicographic order of that relation. Bytes, and
  with them strings, are ordered in this way.
\<close>

lemma lexicographical_compare_lexord:
  "\<forall>a b. \<not> lt a b \<longrightarrow> \<not> lt b a \<longrightarrow> a = b \<Longrightarrow>
   lexicographical_compare lt xs ys \<longleftrightarrow> (xs, ys) \<in> lexord {(a, b). lt a b}"
proof (induction lt xs ys rule: lexicographical_compare.induct)
  case (4 lt x xs y ys)
  then show ?case by auto
qed simp_all

lemma char_lt_total: "\<not> char_lt a b \<Longrightarrow> \<not> char_lt b a \<Longrightarrow> a = b"
  by (simp add: char_lt_def)

lemma string_lt_iff: "string_lt s t \<longleftrightarrow> (s, t) \<in> spec_string_less"
proof -
  have "string_lt s t \<longleftrightarrow> (s, t) \<in> lexord {(c, d). char_lt c d}"
    unfolding string_lt_def
    by (rule lexicographical_compare_lexord) (simp add: char_lt_def)
  also have "{(c, d). char_lt c d} = spec_byte_less"
    by (auto simp: char_lt_def spec_byte_less_def)
  finally show ?thesis by (simp add: spec_string_less_def)
qed

lemma irrefl_byte_less: "(c, c) \<notin> spec_byte_less"
  by (simp add: spec_byte_less_def)

lemma trans_byte_less: "trans spec_byte_less"
  by (auto simp: spec_byte_less_def trans_def)

lemma asym_byte_less: "asym spec_byte_less"
  by (rule asymI) (auto simp: spec_byte_less_def)

lemma total_byte_less: "total spec_byte_less"
proof -
  have "(of_char c :: nat) < of_char d \<or> (of_char d :: nat) < of_char c" if "c \<noteq> d" for c d
  proof -
    from that have "(of_char c :: nat) \<noteq> of_char d" by simp
    then show ?thesis by arith
  qed
  then show ?thesis
    by (auto simp: spec_byte_less_def total_on_def)
qed

lemma irrefl_string_less: "(s, s) \<notin> spec_string_less"
  unfolding spec_string_less_def by (rule lexord_irreflexive) (simp add: irrefl_byte_less)

lemma trans_string_less: "trans spec_string_less"
  unfolding spec_string_less_def by (rule lexord_transI) (rule trans_byte_less)

lemma asym_string_less: "asym spec_string_less"
  unfolding spec_string_less_def by (rule lexord_asym) (rule asym_byte_less)

lemma total_string_less: "total spec_string_less"
  unfolding spec_string_less_def by (rule total_lexord) (rule total_byte_less)

lemma string_lt_total: "\<not> string_lt s t \<Longrightarrow> \<not> string_lt t s \<Longrightarrow> s = t"
  using total_string_less by (auto simp: string_lt_iff total_on_def)

lemma deque_lt_iff: "deque_lt q1 q2 \<longleftrightarrow> (q1, q2) \<in> spec_queue_less"
proof -
  have "deque_lt q1 q2 \<longleftrightarrow> (q1, q2) \<in> lexord {(s, t). string_lt s t}"
    unfolding deque_lt_def
    by (rule lexicographical_compare_lexord) (blast intro: string_lt_total)
  also have "{(s, t). string_lt s t} = spec_string_less"
    by (auto simp: string_lt_iff)
  finally show ?thesis by (simp add: spec_queue_less_def)
qed

lemma irrefl_queue_less: "(q, q) \<notin> spec_queue_less"
  unfolding spec_queue_less_def by (rule lexord_irreflexive) (simp add: irrefl_string_less)

lemma trans_queue_less:
  "(q1, q2) \<in> spec_queue_less \<Longrightarrow> (q2, q3) \<in> spec_queue_less \<Longrightarrow> (q1, q3) \<in> spec_queue_less"
  unfolding spec_queue_less_def by (erule lexord_trans) (simp_all add: trans_string_less)

lemma asym_queue_less: "(q1, q2) \<in> spec_queue_less \<Longrightarrow> (q2, q1) \<notin> spec_queue_less"
  unfolding spec_queue_less_def by (rule lexord_asymmetric [OF asym_string_less])

lemma total_queue_less:
  "(q1, q2) \<notin> spec_queue_less \<Longrightarrow> (q2, q1) \<notin> spec_queue_less \<Longrightarrow> q1 = q2"
  using total_lexord [OF total_string_less]
  by (auto simp: spec_queue_less_def total_on_def)

lemma strqueue_comp_eq:
  "strqueue_comp r h1 h2 =
     (if (spec_contents r h1, spec_contents r h2) \<in> spec_queue_less then - 1
      else if (spec_contents r h2, spec_contents r h1) \<in> spec_queue_less then 1
      else 0)"
  by (simp add: strqueue_comp_def spec_contents_def get_empty_queue_def deque_lt_iff Let_def
      split: option.splits)

text \<open>
  Claim C3. The result of \<^verbatim>\<open>strqueue_comp\<close> is the lexicographic order of the two
  queues as the specification words it, an unknown handle standing for the empty queue:
  two unknown handles compare equal, an unknown handle is less than every non-empty queue,
  the result is one of \<open>-1\<close>, \<open>0\<close>, \<open>1\<close>, and the call returns the state as it was.
\<close>

theorem strqueue_comp_lexicographic:
  "strqueue_comp r h1 h2 = spec_compare r h1 h2 \<and>
   (strqueue_comp r h1 h2 = 1 \<longleftrightarrow>
      (spec_contents r h2, spec_contents r h1) \<in> spec_queue_less) \<and>
   (queues r h1 = None \<and> queues r h2 = None \<longrightarrow> strqueue_comp r h1 h2 = 0) \<and>
   (queues r h1 = None \<and> queues r h2 = Some (x # xs) \<longrightarrow> strqueue_comp r h1 h2 = - 1) \<and>
   strqueue_comp r h1 h2 \<in> {- 1, 0, 1} \<and>
   exec debug r (Comp h1 h2) = Inr (r, Order (strqueue_comp r h1 h2))"
proof (intro conjI impI)
  show "strqueue_comp r h1 h2 = spec_compare r h1 h2"
    using total_queue_less [of "spec_contents r h1" "spec_contents r h2"]
      irrefl_queue_less [of "spec_contents r h1"]
    by (auto simp: strqueue_comp_eq spec_compare_def)
  show "strqueue_comp r h1 h2 = 1 \<longleftrightarrow>
      (spec_contents r h2, spec_contents r h1) \<in> spec_queue_less"
    using asym_queue_less [of "spec_contents r h1" "spec_contents r h2"]
    by (auto simp: strqueue_comp_eq)
  show "strqueue_comp r h1 h2 \<in> {- 1, 0, 1}"
    by (simp add: strqueue_comp_eq)
  show "exec debug r (Comp h1 h2) = Inr (r, Order (strqueue_comp r h1 h2))"
    by simp
next
  assume "queues r h1 = None \<and> queues r h2 = None"
  then show "strqueue_comp r h1 h2 = 0"
    by (simp add: strqueue_comp_eq spec_contents_def spec_queue_less_def)
next
  assume "queues r h1 = None \<and> queues r h2 = Some (x # xs)"
  then show "strqueue_comp r h1 h2 = - 1"
    by (simp add: strqueue_comp_eq spec_contents_def spec_queue_less_def)
qed

theorem strqueue_comp_lexicographic_witness:
  "strqueue_comp \<lparr>cnt = 3, queues = [0 \<mapsto> [''a'', ''b''], 1 \<mapsto> [''a'', ''c'']]\<rparr> 0 1 = - 1 \<and>
   strqueue_comp \<lparr>cnt = 3, queues = [0 \<mapsto> [''a'', ''b''], 1 \<mapsto> [''a'', ''c'']]\<rparr> 5 6 = 0 \<and>
   strqueue_comp \<lparr>cnt = 3, queues = [0 \<mapsto> [''a'', ''b''], 1 \<mapsto> [''a'', ''c'']]\<rparr> 5 0 = - 1"
  using
    strqueue_comp_lexicographic [where r = "\<lparr>cnt = 3, queues = [0 \<mapsto> [''a'', ''b''], 1 \<mapsto> [''a'', ''c'']]\<rparr>"
      and ?h1.0 = 0 and ?h2.0 = 1]
    strqueue_comp_lexicographic [where r = "\<lparr>cnt = 3, queues = [0 \<mapsto> [''a'', ''b''], 1 \<mapsto> [''a'', ''c'']]\<rparr>"
      and ?h1.0 = 5 and ?h2.0 = 6]
    strqueue_comp_lexicographic [where r = "\<lparr>cnt = 3, queues = [0 \<mapsto> [''a'', ''b''], 1 \<mapsto> [''a'', ''c'']]\<rparr>"
      and ?h1.0 = 5 and ?h2.0 = 0 and x = "''a''" and xs = "[''b'']"]
  by (simp add: spec_compare_def spec_contents_def spec_queue_less_def spec_string_less_def
      spec_byte_less_def)

text \<open>
  Claim C8. A handle compares equal to itself, live or not. Swapping the arguments negates
  the result, so two queues are never each less than the other, and they hold the same
  strings when neither is greater. Less is transitive.
\<close>

theorem strqueue_comp_order:
  "strqueue_comp r h h = 0 \<and>
   strqueue_comp r a b = - strqueue_comp r b a \<and>
   (strqueue_comp r a b = - 1 \<longrightarrow> strqueue_comp r b a \<noteq> - 1) \<and>
   (strqueue_comp r a b \<le> 0 \<and> strqueue_comp r b a \<le> 0 \<longrightarrow>
      strqueue_comp r a b = 0 \<and> spec_contents r a = spec_contents r b) \<and>
   (strqueue_comp r a b = - 1 \<and> strqueue_comp r b c = - 1 \<longrightarrow> strqueue_comp r a c = - 1)"
proof (intro conjI impI)
  show "strqueue_comp r h h = 0"
    by (simp add: strqueue_comp_eq irrefl_queue_less)
  show neg: "strqueue_comp r a b = - strqueue_comp r b a"
    using asym_queue_less [of "spec_contents r a" "spec_contents r b"]
    by (auto simp: strqueue_comp_eq)
  {
    assume "strqueue_comp r a b = - 1"
    with neg show "strqueue_comp r b a \<noteq> - 1" by simp
  }
  {
    assume le: "strqueue_comp r a b \<le> 0 \<and> strqueue_comp r b a \<le> 0"
    with neg show "strqueue_comp r a b = 0" by simp
    from le show "spec_contents r a = spec_contents r b"
      using total_queue_less [of "spec_contents r a" "spec_contents r b"]
        asym_queue_less [of "spec_contents r a" "spec_contents r b"]
      by (auto simp: strqueue_comp_eq split: if_splits)
  }
  {
    assume "strqueue_comp r a b = - 1 \<and> strqueue_comp r b c = - 1"
    then have "(spec_contents r a, spec_contents r b) \<in> spec_queue_less"
      and "(spec_contents r b, spec_contents r c) \<in> spec_queue_less"
      by (auto simp: strqueue_comp_eq split: if_splits)
    then have "(spec_contents r a, spec_contents r c) \<in> spec_queue_less"
      by (rule trans_queue_less)
    then show "strqueue_comp r a c = - 1"
      by (simp add: strqueue_comp_eq)
  }
qed

theorem strqueue_comp_order_witness:
  "strqueue_comp \<lparr>cnt = 3, queues = [0 \<mapsto> [''a''], 1 \<mapsto> [''a'', ''c''], 2 \<mapsto> [''b'']]\<rparr> 0 2 = - 1 \<and>
   strqueue_comp \<lparr>cnt = 3, queues = [0 \<mapsto> [''a''], 1 \<mapsto> [''a'', ''c''], 2 \<mapsto> [''b'']]\<rparr> 1 0 \<noteq> - 1"
  using
    strqueue_comp_order [where r = "\<lparr>cnt = 3, queues = [0 \<mapsto> [''a''], 1 \<mapsto> [''a'', ''c''], 2 \<mapsto> [''b'']]\<rparr>"
      and a = 0 and b = 1 and c = 2 and h = 0]
  by (simp add: strqueue_comp_eq spec_contents_def spec_queue_less_def spec_string_less_def
      spec_byte_less_def)

subsection \<open>The counter\<close>

text \<open>
  Only \<^verbatim>\<open>strqueue_new\<close> writes \<^verbatim>\<open>cnt\<close>, and only it returns a handle. So the
  handles a sequence of calls returns are the successive values of the counter, whatever
  the other calls do; with assertions enabled the counter stays below its maximum, so fewer
  than \<open>2 ^ 64\<close> handles are ever returned.
\<close>

lemma exec_New_Inr:
  "exec debug r New = Inr (r', x) \<Longrightarrow>
   x = Handle (cnt r) \<and> cnt r' = cnt r + 1 \<and> (debug \<longrightarrow> cnt r < ulong_max)"
  by (auto simp: strqueue_new_def split: if_splits)

lemma exec_other_Inr:
  "c \<noteq> New \<Longrightarrow> exec debug r c = Inr (r', x) \<Longrightarrow>
   cnt r' = cnt r \<and> handles (x # xs) = handles xs"
  by (cases c)
    (auto simp: strqueue_delete_def strqueue_insert_at_def strqueue_remove_at_def
      strqueue_clear_def Let_def split: option.splits)

lemma map_upt_shift:
  "(c :: ulong) # map (\<lambda>i. c + 1 + word_of_nat i) [0..<k] = map (\<lambda>i. c + word_of_nat i) [0..<Suc k]"
  by (simp add: map_upt_Suc add.assoc add.commute del: upt_Suc)

lemma handles_run:
  "handles (run debug r cs) =
     map (\<lambda>i. cnt r + word_of_nat i) [0..<length (handles (run debug r cs))]"
proof (induction cs arbitrary: r)
  case Nil
  then show ?case by simp
next
  case (Cons c cs)
  show ?case
  proof (cases "exec debug r c")
    case (Inl a)
    then show ?thesis by simp
  next
    case (Inr y)
    then obtain r' x where y: "exec debug r c = Inr (r', x)"
      by (cases y) simp
    show ?thesis
    proof (cases "c = New")
      case True
      with y have x: "x = Handle (cnt r)" and c': "cnt r' = cnt r + 1"
        using exec_New_Inr by blast+
      have "handles (run debug r (c # cs)) = cnt r # handles (run debug r' cs)"
        using y x by simp
      also have "\<dots> = cnt r # map (\<lambda>i. cnt r + 1 + word_of_nat i)
          [0..<length (handles (run debug r' cs))]"
        using Cons.IH [of r'] c' by simp
      also have "\<dots> = map (\<lambda>i. cnt r + word_of_nat i)
          [0..<Suc (length (handles (run debug r' cs)))]"
        by (rule map_upt_shift)
      finally show ?thesis
        using y x by simp
    next
      case False
      with y have c': "cnt r' = cnt r"
        and h: "handles (x # run debug r' cs) = handles (run debug r' cs)"
        using exec_other_Inr by blast+
      then show ?thesis
        using y Cons.IH [of r'] by simp
    qed
  qed
qed

lemma handles_run_bound:
  "unat (cnt r) + length (handles (run True r cs)) < 2 ^ 64"
proof (induction cs arbitrary: r)
  case Nil
  show ?case using unsigned_less [of "cnt r"] by simp
next
  case (Cons c cs)
  show ?case
  proof (cases "exec True r c")
    case (Inl a)
    then show ?thesis using unsigned_less [of "cnt r"] by simp
  next
    case (Inr y)
    then obtain r' x where y: "exec True r c = Inr (r', x)"
      by (cases y) simp
    show ?thesis
    proof (cases "c = New")
      case True
      with y have x: "x = Handle (cnt r)" and c': "cnt r' = cnt r + 1"
        and lt: "cnt r < ulong_max"
        using exec_New_Inr by blast+
      from lt have "cnt r \<noteq> - 1"
        by (auto simp: ulong_max_def)
      then have "1 + cnt r \<noteq> 0"
        by (simp add: add_eq_0_iff)
      then have "unat (cnt r + 1) = unat (cnt r) + 1"
        by (simp add: unatSuc add.commute)
      with Cons.IH [of r'] c' show ?thesis
        using y x by simp
    next
      case False
      with y have c': "cnt r' = cnt r"
        and h: "handles (x # run True r' cs) = handles (run True r' cs)"
        using exec_other_Inr by blast+
      then show ?thesis
        using y Cons.IH [of r'] by simp
    qed
  qed
qed

lemma fresh_handles_sorted:
  assumes "n \<le> 2 ^ 64"
  shows "sorted_wrt (<) (map (word_of_nat :: nat \<Rightarrow> ulong) [0..<n])"
proof -
  have "(word_of_nat i :: ulong) < word_of_nat j" if "i < j" "j < n" for i j
  proof -
    from that assms have "i < 2 ^ 64" "j < 2 ^ 64" by simp_all
    then have "unat (word_of_nat i :: ulong) = i" "unat (word_of_nat j :: ulong) = j"
      by (simp_all add: unat_of_nat)
    with that show ?thesis by (simp add: word_less_nat_alt)
  qed
  then show ?thesis
    by (simp add: sorted_wrt_iff_nth_less)
qed

lemma sorted_distinct: "sorted_wrt (<) (xs :: ulong list) \<Longrightarrow> distinct xs"
  by (simp add: strict_sorted_iff)

text \<open>
  Without assertions no call aborts, every \<^verbatim>\<open>strqueue_new\<close> returns a handle, and
  after \<open>2 ^ 64\<close> of them the counter is back at 0.
\<close>

lemma exec_False_Inr: "\<exists>r' x. exec False r c = Inr (r', x)"
  by (cases c) (simp_all add: strqueue_new_def)

lemma length_handles_run_False:
  "length (handles (run False r cs)) = length (filter (\<lambda>c. c = New) cs)"
proof (induction cs arbitrary: r)
  case Nil
  then show ?case by simp
next
  case (Cons c cs)
  obtain r' x where y: "exec False r c = Inr (r', x)"
    using exec_False_Inr by blast
  show ?case
  proof (cases "c = New")
    case True
    with y have "x = Handle (cnt r)"
      using exec_New_Inr by blast
    with y True Cons.IH [of r'] show ?thesis by simp
  next
    case False
    with y have "handles (x # run False r' cs) = handles (run False r' cs)"
      using exec_other_Inr by blast
    with y False Cons.IH [of r'] show ?thesis by simp
  qed
qed

lemma churn_news: "length (filter (\<lambda>c. c = New) (churn n)) = n"
  by (induction n) simp_all

lemma handles_wrap:
  assumes "0 < n" and "(word_of_nat n :: ulong) = 0"
  shows "length (handles (run False initial (churn n @ [New]))) = Suc n \<and>
         handles (run False initial (churn n @ [New])) ! 0 = 0 \<and>
         handles (run False initial (churn n @ [New])) ! n = 0 \<and>
         \<not> distinct (handles (run False initial (churn n @ [New])))"
proof -
  let ?hs = "handles (run False initial (churn n @ [New]))"
  have len: "length ?hs = Suc n"
    by (simp add: length_handles_run_False churn_news)
  have "?hs = map (\<lambda>i. cnt initial + word_of_nat i) [0..<length ?hs]"
    by (rule handles_run)
  then have hs: "?hs = map word_of_nat [0..<Suc n]"
    by (simp only: len) (simp add: initial_def)
  have first: "?hs ! 0 = 0"
    by (subst hs) (simp add: nth_append del: upt_Suc)
  have last: "?hs ! n = 0"
    by (subst hs) (simp add: nth_append assms del: upt_Suc)
  have "0 < length ?hs" "n < length ?hs" "0 \<noteq> n"
    using assms len by simp_all
  with first last have "\<not> distinct ?hs"
    by (metis nth_eq_iff_index_eq)
  with len first last show ?thesis
    by blast
qed

text \<open>
  From program start, the handles returned are \<open>0, 1, 2, \<dots>\<close> in this order, strictly
  increasing and without repetition, whatever is deleted in between: for every sequence of
  calls when assertions are enabled, and without them as long as the counter has not
  wrapped.
\<close>

lemma handles_fresh:
  "debug \<or> length (handles (run debug initial cs)) \<le> 2 ^ 64 \<Longrightarrow>
   handles (run debug initial cs) =
     map word_of_nat [0..<length (handles (run debug initial cs))] \<and>
   sorted_wrt (<) (handles (run debug initial cs)) \<and>
   distinct (handles (run debug initial cs))"
proof -
  let ?hs = "handles (run debug initial cs)"
  assume a: "debug \<or> length ?hs \<le> 2 ^ 64"
  have "?hs = map (\<lambda>i. cnt initial + word_of_nat i) [0..<length ?hs]"
    by (rule handles_run)
  then have hs: "?hs = map word_of_nat [0..<length ?hs]"
    by (simp add: initial_def)
  have "length ?hs \<le> 2 ^ 64"
  proof (cases debug)
    case True
    then show ?thesis
      using handles_run_bound [of initial cs] by simp
  next
    case False
    with a show ?thesis by simp
  qed
  then have "sorted_wrt (<) (map (word_of_nat :: nat \<Rightarrow> ulong) [0..<length ?hs])"
    by (rule fresh_handles_sorted)
  with hs have sorted: "sorted_wrt (<) ?hs"
    by simp
  from sorted have "distinct ?hs"
    by (rule sorted_distinct)
  with hs sorted show ?thesis
    by blast
qed

text \<open>
  Claim C4. The handles returned by successive calls of \<^verbatim>\<open>strqueue_new\<close> start at 0,
  go up by one and never repeat, whatever is deleted in between. The build with assertions
  keeps this on every sequence of calls; here it does so on \<open>2 ^ 64\<close> rounds of creating
  a queue and deleting it, followed by one more creation, where it aborts instead of
  returning a handle twice. The build with \<^verbatim>\<open>NDEBUG\<close> breaks the claim on the same
  calls: the assertion is compiled out, the counter wraps, and the last creation returns
  handle 0, which the first creation had returned.
\<close>

theorem handles_repeat_without_assert:
  "distinct (handles (run True initial (churn (2 ^ 64) @ [New]))) \<and>
   length (handles (run False initial (churn (2 ^ 64) @ [New]))) = Suc (2 ^ 64) \<and>
   handles (run False initial (churn (2 ^ 64) @ [New])) ! 0 = 0 \<and>
   handles (run False initial (churn (2 ^ 64) @ [New])) ! (2 ^ 64) = 0 \<and>
   \<not> distinct (handles (run False initial (churn (2 ^ 64) @ [New])))"
proof -
  have "distinct (handles (run True initial (churn (2 ^ 64) @ [New])))"
    using handles_fresh [of True "churn (2 ^ 64) @ [New]"] by blast
  moreover have "(0 :: nat) < 2 ^ 64" and "(word_of_nat (2 ^ 64) :: ulong) = 0"
    by simp_all
  ultimately show ?thesis
    using handles_wrap [of "2 ^ 64"] by blast
qed

text \<open>
  With assertions enabled, \<^verbatim>\<open>strqueue_new\<close> called when the counter is at
  \<^verbatim>\<open>numeric_limits<unsigned long>::max()\<close> fails its assertion, in every state: the
  process ends, no handle is returned, and no later call runs.
\<close>

lemma strqueue_new_exhausted:
  "cnt r = ulong_max \<Longrightarrow>
   strqueue_new True r = Inl Assertion_failed \<and> run True r (New # cs) = []"
  by (simp add: strqueue_new_def)

text \<open>
  Claim C9. When the counter is at its maximum, the next \<^verbatim>\<open>strqueue_new\<close> must stop
  the process and neither wrap the counter nor hand out a handle again. In the state with
  the counter at the maximum and queue 0 alive with one string, the build with assertions
  does stop at the first creation. The build with \<^verbatim>\<open>NDEBUG\<close> does not: the first
  creation returns the maximum as a handle and the counter wraps to 0, the second returns
  handle 0, which is alive, and replaces its queue by an empty one, so that the size of
  queue 0 goes from 1 to 0.
\<close>

theorem strqueue_new_wraps_without_assert:
  "strqueue_new True \<lparr>cnt = ulong_max, queues = [0 \<mapsto> [''a'']]\<rparr> = Inl Assertion_failed \<and>
   run True \<lparr>cnt = ulong_max, queues = [0 \<mapsto> [''a'']]\<rparr> [Size 0, New, New, Size 0] =
     [Count 1] \<and>
   strqueue_new False \<lparr>cnt = ulong_max, queues = [0 \<mapsto> [''a'']]\<rparr> =
     Inr (\<lparr>cnt = 0, queues = [0 \<mapsto> [''a''], ulong_max \<mapsto> []]\<rparr>, ulong_max) \<and>
   run False \<lparr>cnt = ulong_max, queues = [0 \<mapsto> [''a'']]\<rparr> [Size 0, New, New, Size 0] =
     [Count 1, Handle ulong_max, Handle 0, Count 0]"
  by (simp add: strqueue_new_def ulong_max_def strqueue_size_def)

end
